theory Spec2Isabelle
  imports Main "HOL-Library.Word"
begin

section \<open>The CSV column hasher (hashify.py)\<close>

text \<open>
  The program reads a CSV file with \<^verbatim>\<open>csv.DictReader\<close>, replaces the value of one
  named column by a digest of it, and writes the rows with \<^verbatim>\<open>csv.DictWriter\<close>.

  Scope of the model.
  \<^item> Text is a \<open>string\<close> whose characters are the code points 0 to 255, so that
    \<^verbatim>\<open>str.lower\<close> and the UTF-8 encoder are the functions Python applies to such
    text.
  \<^item> A file is the list of records that \<^verbatim>\<open>csv.reader\<close> yields for it, a record
    being the list of its fields, and a blank line the empty record. Decoding the
    bytes, splitting them into records and quoting fields on output belong to the
    \<^verbatim>\<open>csv\<close> module and are not modelled; an input whose bytes cannot be decoded
    or split into records is outside the model.
  \<^item> The digest functions of \<^verbatim>\<open>hashlib\<close> and Python's \<^verbatim>\<open>repr\<close> of a string are
    parameters, collected in the record \<open>runtime\<close>.
  \<^item> The reader sees the content the input file had when it was opened. That is what
    happens when the input and the output are different files; theorems that compare
    the output with the input assume that the two paths differ.
  \<^item> Opening the output for writing succeeds; the only refusal of the file system in
    the model is an input path that does not exist.
\<close>

subsection \<open>Text\<close>

type_synonym bytes = "8 word list"

definition char_lower :: "char \<Rightarrow> char" where
  "char_lower c =
     (let n = (of_char c :: nat)
      in if (65 \<le> n \<and> n \<le> 90) \<or> (192 \<le> n \<and> n \<le> 222 \<and> n \<noteq> 215)
         then char_of (n + 32) else c)"

text \<open>\<^verbatim>\<open>str.lower()\<close>: A to Z and the capital letters of Latin-1 move 32 code points up.\<close>

definition lower :: "string \<Rightarrow> string" where
  "lower s = map char_lower s"

text \<open>
  \<^verbatim>\<open>str.upper()\<close>. The sharp s becomes two letters. The micro sign and the y with
  diaeresis have capitals beyond code point 255, which the model cannot hold; they are
  left as they are, and \<open>upper\<close> is only applied to a name that
  \<open>get_hash_function\<close> accepted, which holds neither.
\<close>

definition char_upper :: "char \<Rightarrow> string" where
  "char_upper c =
     (let n = (of_char c :: nat)
      in if (97 \<le> n \<and> n \<le> 122) \<or> (224 \<le> n \<and> n \<le> 254 \<and> n \<noteq> 247)
         then [char_of (n - 32)]
         else if n = 223 then ''SS'' else [c])"

definition upper :: "string \<Rightarrow> string" where
  "upper s = concat (map char_upper s)"

text \<open>\<^verbatim>\<open>sep.join(xs)\<close>\<close>

fun join :: "string \<Rightarrow> string list \<Rightarrow> string" where
  "join sep [] = []"
| "join sep [x] = x"
| "join sep (x # y # ys) = x @ sep @ join sep (y # ys)"

text \<open>A value between single quotes, as the messages of the source print it.\<close>

definition quoted :: "string \<Rightarrow> string" where
  "quoted s = [CHR 0x27] @ s @ [CHR 0x27]"

text \<open>\<^verbatim>\<open>str.encode('utf-8')\<close> on code points below 256: one byte below 128, two from there.\<close>

definition utf8_char :: "char \<Rightarrow> bytes" where
  "utf8_char c =
     (let n = (of_char c :: nat)
      in if n < 128 then [of_nat n]
         else [of_nat (192 + n div 64), of_nat (128 + n mod 64)])"

definition encode_utf8 :: "string \<Rightarrow> bytes" where
  "encode_utf8 s = concat (map utf8_char s)"

text \<open>\<^verbatim>\<open>hexdigest()\<close> writes each byte of the digest as two lowercase hexadecimal digits.\<close>

definition hex_digit :: "nat \<Rightarrow> char" where
  "hex_digit n = ''0123456789abcdef'' ! (n mod 16)"

definition hex_byte :: "8 word \<Rightarrow> string" where
  "hex_byte b = [hex_digit (unat b div 16), hex_digit (unat b mod 16)]"

definition hexdigest :: "bytes \<Rightarrow> string" where
  "hexdigest bs = concat (map hex_byte bs)"

subsection \<open>Exceptions, the library, the world\<close>

text \<open>
  Each exception carries the text that \<^verbatim>\<open>str(e)\<close> gives, except \<open>KeyError\<close>, which
  carries the missing key, and \<open>SystemExit\<close>, which carries the status.
\<close>

datatype exn =
    ValueError string
  | FileNotFoundError string
  | TypeError string
  | KeyError "string option"
  | AttributeError string
  | SystemExit nat

datatype hash_algo = MD5 | SHA1 | SHA256 | SHA512 | BLAKE2b | BLAKE2s

record runtime =
  digest :: "hash_algo \<Rightarrow> bytes \<Rightarrow> bytes"
  repr_str :: "string \<Rightarrow> string"

type_synonym path = string
type_synonym csv_record = "string list"

datatype fs_event = OpenRead path | OpenWrite path | WriteRow path csv_record

record world =
  files :: "path \<rightharpoonup> csv_record list"
  stdout :: "string list"
  stderr :: "string list"
  trace :: "fs_event list"

definition print_out :: "string \<Rightarrow> world \<Rightarrow> world" where
  "print_out s w = w\<lparr>stdout := stdout w @ [s]\<rparr>"

definition print_err :: "string \<Rightarrow> world \<Rightarrow> world" where
  "print_err s w = w\<lparr>stderr := stderr w @ [s]\<rparr>"

text \<open>\<^verbatim>\<open>open(p, 'r')\<close> of an existing file, \<^verbatim>\<open>open(p, 'w')\<close>, and one row written.\<close>

definition open_read :: "path \<Rightarrow> world \<Rightarrow> world" where
  "open_read p w = w\<lparr>trace := trace w @ [OpenRead p]\<rparr>"

definition open_write :: "path \<Rightarrow> world \<Rightarrow> world" where
  "open_write p w = w\<lparr>files := (files w)(p \<mapsto> []), trace := trace w @ [OpenWrite p]\<rparr>"

definition write_record :: "path \<Rightarrow> csv_record \<Rightarrow> world \<Rightarrow> world" where
  "write_record p r w =
     w\<lparr>files := (files w)(p \<mapsto> (case files w p of None \<Rightarrow> [] | Some rs \<Rightarrow> rs) @ [r]),
       trace := trace w @ [WriteRow p r]\<rparr>"

subsection \<open>get_hash_function\<close>

definition algorithms :: "(string \<times> hash_algo) list" where
  "algorithms =
     [(''md5'', MD5), (''sha1'', SHA1), (''sha256'', SHA256),
      (''sha512'', SHA512), (''blake2b'', BLAKE2b), (''blake2s'', BLAKE2s)]"

definition get_hash_function :: "string \<Rightarrow> exn + hash_algo" where
  "get_hash_function algorithm =
     (if lower algorithm \<notin> set (map fst algorithms)
      then Inl (ValueError (''Unsupported algorithm: '' @ algorithm @ ''. Supported: ''
                            @ join '', '' (map fst algorithms)))
      else (case map_of algorithms (lower algorithm) of
              None \<Rightarrow> Inl (KeyError (Some (lower algorithm)))
            | Some f \<Rightarrow> Inr f))"

subsection \<open>Row dictionaries, DictReader and DictWriter\<close>

text \<open>
  A value held by a row dictionary: a field, \<^verbatim>\<open>None\<close> for a field the row lacks, or
  the list of surplus fields that \<open>DictReader\<close> stores under the key \<^verbatim>\<open>None\<close>. A
  key is a column name or \<^verbatim>\<open>None\<close>. The dictionary keeps its keys in insertion order.
\<close>

datatype pyval = Str string | NoneVal | Lst "string list"

type_synonym rowdict = "(string option \<times> pyval) list"

fun dict_set :: "string option \<Rightarrow> pyval \<Rightarrow> rowdict \<Rightarrow> rowdict" where
  "dict_set k v [] = [(k, v)]"
| "dict_set k v ((k', v') # d) =
     (if k' = k then (k, v) # d else (k', v') # dict_set k v d)"

definition dict_of :: "(string option \<times> pyval) list \<Rightarrow> rowdict" where
  "dict_of ps = foldl (\<lambda>d (k, v). dict_set k v d) [] ps"

definition dict_get :: "rowdict \<Rightarrow> string option \<Rightarrow> exn + pyval" where
  "dict_get d k = (case map_of d k of None \<Rightarrow> Inl (KeyError k) | Some v \<Rightarrow> Inr v)"

text \<open>
  \<^verbatim>\<open>DictReader.__next__\<close> for a record that is not blank: the fields are zipped with
  the field names, surplus fields go under \<^verbatim>\<open>restkey = None\<close>, and the names a short
  record leaves over get \<^verbatim>\<open>restval = None\<close>.
\<close>

definition DictReader_row :: "string list \<Rightarrow> csv_record \<Rightarrow> rowdict" where
  "DictReader_row fieldnames row =
     (let d = dict_of (zip (map Some fieldnames) (map Str row));
          lf = length fieldnames;
          lr = length row
      in if lf < lr then dict_set None (Lst (drop lf row)) d
         else if lf > lr then foldl (\<lambda>d key. dict_set (Some key) NoneVal d) d (drop lr fieldnames)
         else d)"

text \<open>\<^verbatim>\<open>bool(v)\<close>, \<^verbatim>\<open>repr\<close> of a key, and the text \<^verbatim>\<open>csv.writer\<close> writes for a value.\<close>

fun truthy :: "pyval \<Rightarrow> bool" where
  "truthy (Str s) = (s \<noteq> [])"
| "truthy NoneVal = False"
| "truthy (Lst xs) = (xs \<noteq> [])"

fun repr_key :: "runtime \<Rightarrow> string option \<Rightarrow> string" where
  "repr_key rt None = ''None''"
| "repr_key rt (Some s) = repr_str rt s"

fun field_text :: "runtime \<Rightarrow> pyval \<Rightarrow> string" where
  "field_text rt (Str s) = s"
| "field_text rt NoneVal = []"
| "field_text rt (Lst xs) = ''['' @ join '', '' (map (repr_str rt) xs) @ '']''"

text \<open>
  \<^verbatim>\<open>DictWriter._dict_to_list\<close> with \<^verbatim>\<open>extrasaction='raise'\<close> and \<^verbatim>\<open>restval=''\<close>, followed
  by the conversion of the values to text in \<^verbatim>\<open>csv.writer.writerow\<close>.
\<close>

definition DictWriter_dict_to_list :: "runtime \<Rightarrow> string list \<Rightarrow> rowdict \<Rightarrow> exn + pyval list" where
  "DictWriter_dict_to_list rt fieldnames d =
     (let wrong_fields = filter (\<lambda>k. k \<notin> set (map Some fieldnames)) (map fst d)
      in if wrong_fields \<noteq> []
         then Inl (ValueError (''dict contains fields not in fieldnames: ''
                               @ join '', '' (map (repr_key rt) wrong_fields)))
         else Inr (map (\<lambda>key. case map_of d (Some key) of None \<Rightarrow> Str [] | Some v \<Rightarrow> v) fieldnames))"

definition DictWriter_writerow :: "runtime \<Rightarrow> path \<Rightarrow> string list \<Rightarrow> rowdict \<Rightarrow> world \<Rightarrow> (exn + unit) \<times> world" where
  "DictWriter_writerow rt p fieldnames d w =
     (case DictWriter_dict_to_list rt fieldnames d of
        Inl e \<Rightarrow> (Inl e, w)
      | Inr vs \<Rightarrow> (Inr (), write_record p (map (field_text rt) vs) w))"

definition DictWriter_writeheader :: "runtime \<Rightarrow> path \<Rightarrow> string list \<Rightarrow> world \<Rightarrow> (exn + unit) \<times> world" where
  "DictWriter_writeheader rt p fieldnames w =
     DictWriter_writerow rt p fieldnames
       (dict_of (zip (map Some fieldnames) (map Str fieldnames))) w"

subsection \<open>hash_csv_column\<close>

text \<open>
  The body of the \<^verbatim>\<open>for\<close> loop up to the call of \<^verbatim>\<open>writer.writerow\<close>: the dictionary
  handed to the writer.
\<close>

definition hash_row :: "runtime \<Rightarrow> hash_algo \<Rightarrow> string \<Rightarrow> rowdict \<Rightarrow> exn + rowdict" where
  "hash_row rt hash_func column_name row =
     (case dict_get row (Some column_name) of
        Inl e \<Rightarrow> Inl e
      | Inr original_value \<Rightarrow>
          if truthy original_value
          then (case original_value of
                  Str s \<Rightarrow>
                    (let hashed_value = hexdigest (digest rt hash_func (encode_utf8 s))
                     in Inr (dict_set (Some column_name) (Str hashed_value) row))
                | NoneVal \<Rightarrow> Inl (AttributeError (quoted ''NoneType'' @ '' object has no attribute '' @ quoted ''encode''))
                | Lst xs \<Rightarrow> Inl (AttributeError (quoted ''list'' @ '' object has no attribute '' @ quoted ''encode'')))
          else Inr row)"

text \<open>
  The loop over the records that follow the header. \<open>DictReader\<close> passes over blank
  records; an exception ends the loop with the rows written so far in the file.
\<close>

fun hash_rows :: "runtime \<Rightarrow> hash_algo \<Rightarrow> path \<Rightarrow> string list \<Rightarrow> string \<Rightarrow> csv_record list \<Rightarrow> world \<Rightarrow> (exn + unit) \<times> world" where
  "hash_rows rt hash_func output_file fieldnames column_name [] w = (Inr (), w)"
| "hash_rows rt hash_func output_file fieldnames column_name (r # rs) w =
     (if r = [] then hash_rows rt hash_func output_file fieldnames column_name rs w
      else (case hash_row rt hash_func column_name (DictReader_row fieldnames r) of
              Inl e \<Rightarrow> (Inl e, w)
            | Inr row \<Rightarrow>
                (case DictWriter_writerow rt output_file fieldnames row w of
                   (Inl e, w') \<Rightarrow> (Inl e, w')
                 | (Inr u, w') \<Rightarrow> hash_rows rt hash_func output_file fieldnames column_name rs w')))"

text \<open>The \<^verbatim>\<open>try\<close> block of \<open>hash_csv_column\<close>.\<close>

definition hash_csv_column_try :: "runtime \<Rightarrow> path \<Rightarrow> path \<Rightarrow> string \<Rightarrow> string \<Rightarrow> world \<Rightarrow> (exn + unit) \<times> world" where
  "hash_csv_column_try rt input_file output_file column_name algorithm w =
     (case get_hash_function algorithm of
        Inl e \<Rightarrow> (Inl e, w)
      | Inr hash_func \<Rightarrow>
          (case files w input_file of
             None \<Rightarrow> (Inl (FileNotFoundError (''[Errno 2] No such file or directory: ''
                                              @ repr_str rt input_file)), w)
           | Some recs \<Rightarrow>
               (let w1 = open_read input_file w
                in case recs of
                     [] \<Rightarrow> (Inl (TypeError (''argument of type '' @ quoted ''NoneType'' @ '' is not iterable'')), w1)
                   | fieldnames # rows \<Rightarrow>
                       if column_name \<notin> set fieldnames
                       then (Inl (ValueError (''Column '' @ quoted column_name
                                     @ '' not found in CSV. Available columns: ''
                                     @ join '', '' fieldnames)), w1)
                       else (case DictWriter_writeheader rt output_file fieldnames
                                    (open_write output_file w1) of
                               (Inl e, w2) \<Rightarrow> (Inl e, w2)
                             | (Inr u, w2) \<Rightarrow>
                                 (case hash_rows rt hash_func output_file fieldnames column_name rows w2 of
                                    (Inl e, w3) \<Rightarrow> (Inl e, w3)
                                  | (Inr u', w3) \<Rightarrow>
                                      (Inr (), print_out (''Successfully hashed column '' @ quoted column_name
                                                 @ '' using '' @ upper algorithm
                                                 @ '' and saved to '' @ quoted output_file) w3))))))"

text \<open>
  The handlers, in the order of the source. Each prints to the error stream and
  calls \<^verbatim>\<open>sys.exit(1)\<close>; \<open>SystemExit\<close> is not an \<^verbatim>\<open>Exception\<close> and passes through.
\<close>

definition hash_csv_column :: "runtime \<Rightarrow> path \<Rightarrow> path \<Rightarrow> string \<Rightarrow> string \<Rightarrow> world \<Rightarrow> (exn + unit) \<times> world" where
  "hash_csv_column rt input_file output_file column_name algorithm w =
     (case hash_csv_column_try rt input_file output_file column_name algorithm w of
        (Inr u, w') \<Rightarrow> (Inr (), w')
      | (Inl e, w') \<Rightarrow>
          (case e of
             FileNotFoundError m \<Rightarrow> (Inl (SystemExit 1), print_err (''Error: File not found - '' @ m) w')
           | ValueError m \<Rightarrow> (Inl (SystemExit 1), print_err (''Error: '' @ m) w')
           | SystemExit n \<Rightarrow> (Inl (SystemExit n), w')
           | TypeError m \<Rightarrow> (Inl (SystemExit 1), print_err (''Error: '' @ m) w')
           | KeyError k \<Rightarrow> (Inl (SystemExit 1), print_err (''Error: '' @ repr_key rt k) w')
           | AttributeError m \<Rightarrow> (Inl (SystemExit 1), print_err (''Error: '' @ m) w')))"

subsection \<open>main\<close>

text \<open>
  \<open>main\<close> after \<^verbatim>\<open>parser.parse_args()\<close> has returned the four arguments. The exit
  status of the process is 0 when \<open>main\<close> returns and the status of \<open>SystemExit\<close>
  otherwise; any other exception that escaped would end the process with status 1.
\<close>

definition main :: "runtime \<Rightarrow> path \<Rightarrow> path \<Rightarrow> string \<Rightarrow> string \<Rightarrow> world \<Rightarrow> (exn + unit) \<times> world" where
  "main rt input_file output_file column_name algorithm w =
     (if files w input_file = None
      then (Inl (SystemExit 1),
            print_err (''Error: Input file '' @ quoted input_file @ '' does not exist'') w)
      else hash_csv_column rt input_file output_file column_name algorithm w)"

fun exit_status :: "exn + unit \<Rightarrow> nat" where
  "exit_status (Inr u) = 0"
| "exit_status (Inl (SystemExit n)) = n"
| "exit_status (Inl e) = 1"

subsection \<open>A runtime and a world for the examples\<close>

text \<open>
  The examples need some digest to compute with: a one-byte checksum stands in for
  every algorithm, and \<open>repr\<close> puts its argument between single quotes.
\<close>

definition example_runtime :: runtime where
  "example_runtime = \<lparr>digest = (\<lambda>a bs. [sum_list bs]), repr_str = quoted\<rparr>"

definition example_world :: world where
  "example_world =
     \<lparr>files = [''in.csv'' \<mapsto> [[''id'', ''email'', ''note''],
                                 [''1'', ''ab'', ''x''],
                                 [],
                                 [''2'', '''', ''y''],
                                 [''3'']],
               ''old.csv'' \<mapsto> [[''kept'']]],
      stdout = [], stderr = [], trace = []\<rparr>"

text \<open>A world whose input has a header in which the name a occurs twice.\<close>

definition repeated_name_world :: world where
  "repeated_name_world =
     \<lparr>files = [''dup.csv'' \<mapsto> [[''a'', ''b'', ''a''],
                                  [''x'', ''y'', ''z'']]],
      stdout = [], stderr = [], trace = []\<rparr>"

subsection \<open>What a run writes, as a function of the records\<close>

text \<open>The records that \<open>DictReader\<close> yields as rows: those that are not blank.\<close>

definition data_rows :: "csv_record list \<Rightarrow> csv_record list" where
  "data_rows rows = filter (\<lambda>r. r \<noteq> []) rows"

text \<open>
  One pass of the loop without the world: the fields that reach the output for one
  record, or the exception that ends the loop.
\<close>

definition written_fields :: "runtime \<Rightarrow> hash_algo \<Rightarrow> string list \<Rightarrow> string \<Rightarrow> csv_record \<Rightarrow> exn + csv_record" where
  "written_fields rt hash_func fieldnames column_name r =
     (case hash_row rt hash_func column_name (DictReader_row fieldnames r) of
        Inl e \<Rightarrow> Inl e
      | Inr row \<Rightarrow>
          (case DictWriter_dict_to_list rt fieldnames row of
             Inl e \<Rightarrow> Inl e
           | Inr vs \<Rightarrow> Inr (map (field_text rt) vs)))"

text \<open>The loop without the world: how it ends, and the records it has written by then.\<close>

fun written_rows :: "runtime \<Rightarrow> hash_algo \<Rightarrow> string list \<Rightarrow> string \<Rightarrow> csv_record list \<Rightarrow> (exn + unit) \<times> csv_record list" where
  "written_rows rt hash_func fieldnames column_name [] = (Inr (), [])"
| "written_rows rt hash_func fieldnames column_name (r # rs) =
     (if r = [] then written_rows rt hash_func fieldnames column_name rs
      else (case written_fields rt hash_func fieldnames column_name r of
              Inl e \<Rightarrow> (Inl e, [])
            | Inr fs \<Rightarrow>
                (case written_rows rt hash_func fieldnames column_name rs of
                   (res, out) \<Rightarrow> (res, fs # out))))"

subsection \<open>The algorithm resolver as the specification words it\<close>

text \<open>
  The closed set of algorithms with their names, and what it means for a name to
  match one of them without regard to case: the two have the same length and agree
  letter by letter once both letters are put in lower case.
\<close>

fun algo_name :: "hash_algo \<Rightarrow> string" where
  "algo_name MD5 = ''md5''"
| "algo_name SHA1 = ''sha1''"
| "algo_name SHA256 = ''sha256''"
| "algo_name SHA512 = ''sha512''"
| "algo_name BLAKE2b = ''blake2b''"
| "algo_name BLAKE2s = ''blake2s''"

definition same_ignoring_case :: "string \<Rightarrow> string \<Rightarrow> bool" where
  "same_ignoring_case a b = list_all2 (\<lambda>c d. char_lower c = char_lower d) a b"

section \<open>Properties of the model\<close>

subsection \<open>Row dictionaries\<close>

lemma map_of_dict_set: "map_of (dict_set k v d) = (map_of d)(k \<mapsto> v)"
  by (induction d) (auto simp: fun_eq_iff)

lemma keys_dict_set: "fst ` set (dict_set k v d) = insert k (fst ` set d)"
proof (induction d)
  case Nil
  then show ?case by simp
next
  case (Cons p d)
  obtain k' v' where p: "p = (k', v')" by (cases p)
  show ?case using Cons.IH by (cases "k' = k") (simp_all add: p insert_commute)
qed

lemma map_of_foldl_dict_set:
  "map_of (foldl (\<lambda>d (k, v). dict_set k v d) d ps) = map_of d ++ map_of (rev ps)"
proof (induction ps arbitrary: d)
  case Nil
  then show ?case by simp
next
  case (Cons p ps)
  obtain k v where p: "p = (k, v)" by (cases p)
  show ?case
    by (simp add: p Cons.IH map_of_dict_set fun_eq_iff map_add_def split: option.splits)
qed

lemma keys_foldl_dict_set:
  "fst ` set (foldl (\<lambda>d (k, v). dict_set k v d) d ps) = fst ` set d \<union> fst ` set ps"
proof (induction ps arbitrary: d)
  case Nil
  then show ?case by simp
next
  case (Cons p ps)
  obtain k v where p: "p = (k, v)" by (cases p)
  show ?case by (simp add: p Cons.IH keys_dict_set)
qed

lemma map_of_dict_of: "map_of (dict_of ps) = map_of (rev ps)"
  by (simp add: dict_of_def map_of_foldl_dict_set)

lemma keys_dict_of: "fst ` set (dict_of ps) = fst ` set ps"
  by (simp add: dict_of_def keys_foldl_dict_set)

lemma map_of_fill:
  "map_of (foldl (\<lambda>d key. dict_set (Some key) NoneVal d) d ks) (Some c) =
     (if c \<in> set ks then Some NoneVal else map_of d (Some c))"
  by (induction ks arbitrary: d) (auto simp: map_of_dict_set)

lemma map_of_fill_None:
  "map_of (foldl (\<lambda>d key. dict_set (Some key) NoneVal d) d ks) None = map_of d None"
  by (induction ks arbitrary: d) (auto simp: map_of_dict_set)

lemma keys_fill:
  "fst ` set (foldl (\<lambda>d key. dict_set (Some key) NoneVal d) d ks) = fst ` set d \<union> Some ` set ks"
  by (induction ks arbitrary: d) (auto simp: keys_dict_set)

lemma keys_zip_names:
  "fst ` set (zip (map Some hdr) (map Str r)) = Some ` set (take (length r) hdr)"
proof -
  have "map fst (zip (map Some hdr) (map Str r)) = take (length r) (map Some hdr)"
    by (simp add: map_fst_zip_take min_def)
  then have "set (map fst (zip (map Some hdr) (map Str r))) = set (take (length r) (map Some hdr))"
    by simp
  then show ?thesis by (simp add: take_map)
qed

lemma DictReader_row_keys:
  assumes "length r \<le> length hdr"
  shows "fst ` set (DictReader_row hdr r) = Some ` set hdr"
proof (cases "length r = length hdr")
  case True
  then show ?thesis
    by (simp add: DictReader_row_def keys_dict_of keys_zip_names)
next
  case False
  with assms have lt: "length r < length hdr" by simp
  have "Some ` set (take (length r) hdr) \<union> Some ` set (drop (length r) hdr) = Some ` set hdr"
    by (metis append_take_drop_id image_Un set_append)
  with lt show ?thesis
    by (simp add: DictReader_row_def keys_fill keys_dict_of keys_zip_names)
qed

lemma DictReader_row_long:
  assumes "length hdr < length r"
  shows "None \<in> fst ` set (DictReader_row hdr r)"
  using assms by (simp add: DictReader_row_def keys_dict_set)

lemma map_of_zip_names_val:
  assumes "map_of (rev (zip (map Some hdr) (map Str r))) k = Some v"
  shows "\<exists>s. v = Str s"
proof -
  from assms have "(k, v) \<in> set (zip (map Some hdr) (map Str r))"
    by (auto dest: map_of_SomeD)
  then have "v \<in> set (map Str r)" by (rule set_zip_rightD)
  then show ?thesis by auto
qed

lemma DictReader_row_vals:
  assumes "map_of (DictReader_row hdr r) (Some c) = Some v"
  shows "v = NoneVal \<or> (\<exists>s. v = Str s)"
  using assms
  by (auto simp: DictReader_row_def Let_def map_of_dict_set map_of_fill map_of_dict_of
           split: if_splits dest: map_of_zip_names_val)

lemma DictReader_row_defined:
  assumes "length r \<le> length hdr" "c \<in> set hdr"
  shows "\<exists>v. map_of (DictReader_row hdr r) (Some c) = Some v \<and> (v = NoneVal \<or> (\<exists>s. v = Str s))"
proof -
  from assms have "Some c \<in> fst ` set (DictReader_row hdr r)"
    by (simp add: DictReader_row_keys)
  then obtain v where "map_of (DictReader_row hdr r) (Some c) = Some v"
    by (metis domD dom_map_of_conv_image_fst)
  with DictReader_row_vals [OF this] show ?thesis by blast
qed

lemma hash_row_Str:
  assumes "map_of d (Some col) = Some (Str s)" "s \<noteq> []"
  shows "hash_row rt h col d = Inr (dict_set (Some col) (Str (hexdigest (digest rt h (encode_utf8 s)))) d)"
  using assms by (simp add: hash_row_def dict_get_def)

lemma hash_row_empty:
  assumes "map_of d (Some col) = Some v" "v = NoneVal \<or> v = Str []"
  shows "hash_row rt h col d = Inr d"
  using assms by (auto simp: hash_row_def dict_get_def)

lemma dict_to_list_ok:
  assumes "fst ` set d \<subseteq> Some ` set hdr"
  shows "DictWriter_dict_to_list rt hdr d =
           Inr (map (\<lambda>key. case map_of d (Some key) of None \<Rightarrow> Str [] | Some v \<Rightarrow> v) hdr)"
proof -
  have "filter (\<lambda>k. k \<notin> set (map Some hdr)) (map fst d) = []"
    using assms by (auto simp: filter_empty_conv)
  then show ?thesis by (simp add: DictWriter_dict_to_list_def)
qed

lemma dict_to_list_wrong:
  assumes "None \<in> fst ` set d"
  shows "\<exists>m. DictWriter_dict_to_list rt hdr d = Inl (ValueError m)"
proof -
  have "None \<in> set (filter (\<lambda>k. k \<notin> set (map Some hdr)) (map fst d))"
    using assms by auto
  then have "filter (\<lambda>k. k \<notin> set (map Some hdr)) (map fst d) \<noteq> []"
    by (metis empty_iff empty_set)
  then show ?thesis by (simp add: DictWriter_dict_to_list_def)
qed

subsection \<open>The loop\<close>

lemma written_fields_ok:
  assumes col: "col \<in> set hdr" and len: "length r \<le> length hdr"
  shows "\<exists>fs. written_fields rt h hdr col r = Inr fs \<and> length fs = length hdr \<and>
           (\<forall>i<length hdr. \<exists>v. map_of (DictReader_row hdr r) (Some (hdr ! i)) = Some v \<and>
              fs ! i = (case v of
                          Str s \<Rightarrow> if hdr ! i = col \<and> s \<noteq> []
                                   then hexdigest (digest rt h (encode_utf8 s)) else s
                        | NoneVal \<Rightarrow> []
                        | Lst xs \<Rightarrow> []))"
proof -
  let ?d = "DictReader_row hdr r"
  have keys: "fst ` set ?d = Some ` set hdr" using len by (rule DictReader_row_keys)
  have defd: "\<And>c. c \<in> set hdr \<Longrightarrow>
      \<exists>v. map_of ?d (Some c) = Some v \<and> (v = NoneVal \<or> (\<exists>s. v = Str s))"
    using len by (rule DictReader_row_defined)
  from defd [OF col] obtain v0 where v0: "map_of ?d (Some col) = Some v0"
    and v0_kind: "v0 = NoneVal \<or> (\<exists>s. v0 = Str s)" by blast
  show ?thesis
  proof (cases "\<exists>s. v0 = Str s \<and> s \<noteq> []")
    case True
    then obtain s where s: "v0 = Str s" "s \<noteq> []" by blast
    let ?hv = "Str (hexdigest (digest rt h (encode_utf8 s)))"
    let ?d' = "dict_set (Some col) ?hv ?d"
    have hr: "hash_row rt h col ?d = Inr ?d'"
      using v0 s by (simp add: hash_row_Str)
    have keys': "fst ` set ?d' \<subseteq> Some ` set hdr"
      using keys col by (simp add: keys_dict_set)
    have wf: "written_fields rt h hdr col r =
        Inr (map (field_text rt)
              (map (\<lambda>key. case map_of ?d' (Some key) of None \<Rightarrow> Str [] | Some v \<Rightarrow> v) hdr))"
      by (simp add: written_fields_def hr dict_to_list_ok [OF keys'])
    have "\<exists>v. map_of ?d (Some (hdr ! i)) = Some v \<and>
            (map (field_text rt)
              (map (\<lambda>key. case map_of ?d' (Some key) of None \<Rightarrow> Str [] | Some v \<Rightarrow> v) hdr)) ! i
            = (case v of
                 Str s \<Rightarrow> if hdr ! i = col \<and> s \<noteq> []
                          then hexdigest (digest rt h (encode_utf8 s)) else s
               | NoneVal \<Rightarrow> []
               | Lst xs \<Rightarrow> [])" if i: "i < length hdr" for i
    proof -
      from i have "hdr ! i \<in> set hdr" by simp
      from defd [OF this] obtain v where v: "map_of ?d (Some (hdr ! i)) = Some v"
        and kind: "v = NoneVal \<or> (\<exists>s. v = Str s)" by blast
      show ?thesis
      proof (cases "hdr ! i = col")
        case True
        with v v0 s have "v = Str s" by simp
        with True i v s show ?thesis by (simp add: map_of_dict_set)
      next
        case False
        with i v kind show ?thesis by (auto simp: map_of_dict_set)
      qed
    qed
    with wf show ?thesis by simp
  next
    case False
    with v0_kind have "v0 = NoneVal \<or> v0 = Str []" by auto
    with v0 have hr: "hash_row rt h col ?d = Inr ?d" by (rule hash_row_empty)
    have keys': "fst ` set ?d \<subseteq> Some ` set hdr" using keys by simp
    have wf: "written_fields rt h hdr col r =
        Inr (map (field_text rt)
              (map (\<lambda>key. case map_of ?d (Some key) of None \<Rightarrow> Str [] | Some v \<Rightarrow> v) hdr))"
      by (simp add: written_fields_def hr dict_to_list_ok [OF keys'])
    have "\<exists>v. map_of ?d (Some (hdr ! i)) = Some v \<and>
            (map (field_text rt)
              (map (\<lambda>key. case map_of ?d (Some key) of None \<Rightarrow> Str [] | Some v \<Rightarrow> v) hdr)) ! i
            = (case v of
                 Str s \<Rightarrow> if hdr ! i = col \<and> s \<noteq> []
                          then hexdigest (digest rt h (encode_utf8 s)) else s
               | NoneVal \<Rightarrow> []
               | Lst xs \<Rightarrow> [])" if i: "i < length hdr" for i
    proof -
      from i have "hdr ! i \<in> set hdr" by simp
      from defd [OF this] obtain v where v: "map_of ?d (Some (hdr ! i)) = Some v"
        and kind: "v = NoneVal \<or> (\<exists>s. v = Str s)" by blast
      show ?thesis
      proof (cases "hdr ! i = col")
        case True
        with v v0 have "v = v0" by simp
        with False i v kind show ?thesis by auto
      next
        case False
        with i v kind show ?thesis by auto
      qed
    qed
    with wf show ?thesis by simp
  qed
qed

lemma written_fields_long:
  assumes col: "col \<in> set hdr" and len: "length hdr < length r"
  shows "\<exists>m. written_fields rt h hdr col r = Inl (ValueError m)"
proof -
  let ?d = "DictReader_row hdr r"
  have none: "None \<in> fst ` set ?d" using len by (rule DictReader_row_long)
  have "take (length r) hdr = hdr" using len by simp
  then have "Some col \<in> fst ` set ?d"
    using len col by (simp add: DictReader_row_def keys_dict_set keys_dict_of keys_zip_names)
  then obtain v0 where v0: "map_of ?d (Some col) = Some v0"
    by (metis domD dom_map_of_conv_image_fst)
  from DictReader_row_vals [OF v0] have kind: "v0 = NoneVal \<or> (\<exists>s. v0 = Str s)" .
  have "\<exists>d'. hash_row rt h col ?d = Inr d' \<and> None \<in> fst ` set d'"
  proof (cases "\<exists>s. v0 = Str s \<and> s \<noteq> []")
    case True
    then obtain s where s: "v0 = Str s" "s \<noteq> []" by blast
    show ?thesis using v0 s none by (simp add: hash_row_Str keys_dict_set)
  next
    case False
    with kind have "v0 = NoneVal \<or> v0 = Str []" by auto
    with v0 have "hash_row rt h col ?d = Inr ?d" by (rule hash_row_empty)
    with none show ?thesis by simp
  qed
  then obtain d' where d': "hash_row rt h col ?d = Inr d'" "None \<in> fst ` set d'" by blast
  from dict_to_list_wrong [OF d'(2)] obtain m where
    "DictWriter_dict_to_list rt hdr d' = Inl (ValueError m)" by blast
  with d' show ?thesis by (simp add: written_fields_def)
qed

lemma written_rows_success_iff:
  assumes "col \<in> set hdr"
  shows "(fst (written_rows rt h hdr col rows) = Inr ()) = (\<forall>r\<in>set rows. length r \<le> length hdr)"
proof (induction rows)
  case Nil
  then show ?case by simp
next
  case (Cons r rows)
  show ?case
  proof (cases "length r \<le> length hdr")
    case True
    from written_fields_ok [OF assms True] obtain fs where
      "written_fields rt h hdr col r = Inr fs" by blast
    with True Cons.IH show ?thesis
      by (cases "written_rows rt h hdr col rows") auto
  next
    case False
    then have long: "length hdr < length r" by simp
    from written_fields_long [OF assms long] obtain m where
      "written_fields rt h hdr col r = Inl (ValueError m)" by blast
    with False long show ?thesis by auto
  qed
qed

lemma written_rows_all2:
  assumes "fst (written_rows rt h hdr col rows) = Inr ()"
  shows "list_all2 (\<lambda>r fs. written_fields rt h hdr col r = Inr fs)
           (data_rows rows) (snd (written_rows rt h hdr col rows))"
  using assms
  by (induction rows) (auto simp: data_rows_def split: sum.splits prod.splits if_splits)

lemma hash_rows_eq:
  assumes "files w out = Some old"
  shows "hash_rows rt h out hdr col rows w =
           (fst (written_rows rt h hdr col rows),
            w\<lparr>files := (files w)(out \<mapsto> old @ snd (written_rows rt h hdr col rows)),
              trace := trace w @ map (WriteRow out) (snd (written_rows rt h hdr col rows))\<rparr>)"
  using assms
proof (induction rows arbitrary: w old)
  case Nil
  then show ?case by (simp add: map_upd_triv)
next
  case (Cons r rows)
  show ?case
  proof (cases "r = []")
    case True
    with Cons show ?thesis by simp
  next
    case False
    show ?thesis
    proof (cases "written_fields rt h hdr col r")
      case (Inl e)
      with False Cons.prems show ?thesis
        by (auto simp: written_fields_def DictWriter_writerow_def map_upd_triv split: sum.splits)
    next
      case (Inr fs)
      then obtain d vs where d: "hash_row rt h col (DictReader_row hdr r) = Inr d"
        and vs: "DictWriter_dict_to_list rt hdr d = Inr vs" and fs: "fs = map (field_text rt) vs"
        by (auto simp: written_fields_def split: sum.splits)
      let ?w' = "write_record out fs w"
      have f': "files ?w' out = Some (old @ [fs])"
        using Cons.prems by (simp add: write_record_def)
      note IH = Cons.IH [OF f']
      obtain res outs where wr: "written_rows rt h hdr col rows = (res, outs)"
        by (cases "written_rows rt h hdr col rows")
      have step: "hash_rows rt h out hdr col (r # rows) w = hash_rows rt h out hdr col rows ?w'"
        using False d vs fs by (simp add: DictWriter_writerow_def)
      have wr': "written_rows rt h hdr col (r # rows) = (res, fs # outs)"
        using False Inr wr by simp
      have "?w'\<lparr>files := (files ?w')(out \<mapsto> (old @ [fs]) @ outs),
                  trace := trace ?w' @ map (WriteRow out) outs\<rparr>
            = w\<lparr>files := (files w)(out \<mapsto> old @ fs # outs),
                  trace := trace w @ map (WriteRow out) (fs # outs)\<rparr>"
        by (simp add: write_record_def)
      then show ?thesis
        by (simp only: step IH wr wr' fst_conv snd_conv)
    qed
  qed
qed

subsection \<open>The whole run\<close>

lemma map_of_header_pairs:
  "map_of (map (\<lambda>c. (Some c, Str c)) xs) (Some c) = (if c \<in> set xs then Some (Str c) else None)"
  by (induction xs) auto

lemma zip_header_pairs: "zip (map Some hdr) (map Str hdr) = map (\<lambda>c. (Some c, Str c)) hdr"
  by (induction hdr) auto

lemma writeheader_eq:
  "DictWriter_writeheader rt p hdr w = (Inr (), write_record p hdr w)"
proof -
  let ?d = "dict_of (zip (map Some hdr) (map Str hdr))"
  have keys: "fst ` set ?d \<subseteq> Some ` set hdr"
    by (simp add: keys_dict_of keys_zip_names)
  have val: "map_of ?d (Some c) = Some (Str c)" if "c \<in> set hdr" for c
    using that by (simp add: map_of_dict_of zip_header_pairs rev_map map_of_header_pairs)
  have "map (field_text rt) (map (\<lambda>key. case map_of ?d (Some key) of None \<Rightarrow> Str [] | Some v \<Rightarrow> v) hdr) = hdr"
    by (rule nth_equalityI) (simp_all add: val)
  then show ?thesis
    by (simp add: DictWriter_writeheader_def DictWriter_writerow_def dict_to_list_ok [OF keys])
qed

lemma hash_csv_column_try_opened:
  assumes alg: "get_hash_function alg = Inr h"
    and inp: "files w inp = Some (hdr # rows)"
    and col: "col \<in> set hdr"
    and wr: "written_rows rt h hdr col rows = (res, outs)"
  shows "hash_csv_column_try rt inp out col alg w =
           (res,
            (case res of Inl e \<Rightarrow> (\<lambda>w. w) | Inr u \<Rightarrow> print_out (''Successfully hashed column '' @ quoted col @ '' using '' @ upper alg
                   @ '' and saved to '' @ quoted out))
              (w\<lparr>files := (files w)(out \<mapsto> hdr # outs),
                 trace := trace w @ [OpenRead inp, OpenWrite out, WriteRow out hdr]
                            @ map (WriteRow out) outs\<rparr>))"
proof -
  let ?w2 = "write_record out hdr (open_write out (open_read inp w))"
  have f2: "files ?w2 out = Some [hdr]"
    by (simp add: write_record_def open_write_def open_read_def)
  have loop: "hash_rows rt h out hdr col rows ?w2 =
      (res, ?w2\<lparr>files := (files ?w2)(out \<mapsto> [hdr] @ outs),
                trace := trace ?w2 @ map (WriteRow out) outs\<rparr>)"
    using hash_rows_eq [OF f2, of rt h hdr col rows] wr by simp
  have w3: "?w2\<lparr>files := (files ?w2)(out \<mapsto> [hdr] @ outs),
                trace := trace ?w2 @ map (WriteRow out) outs\<rparr>
          = w\<lparr>files := (files w)(out \<mapsto> hdr # outs),
               trace := trace w @ [OpenRead inp, OpenWrite out, WriteRow out hdr]
                          @ map (WriteRow out) outs\<rparr>"
    by (simp add: write_record_def open_write_def open_read_def)
  show ?thesis
    using alg inp col
    by (cases res)
       (simp_all add: hash_csv_column_try_def writeheader_eq loop w3
             del: append.simps)
qed

lemma written_rows_error:
  assumes "col \<in> set hdr" "fst (written_rows rt h hdr col rows) = Inl e"
  shows "\<exists>m. e = ValueError m"
  using assms(2)
proof (induction rows)
  case Nil
  then show ?case by simp
next
  case (Cons r rows)
  show ?case
  proof (cases "length r \<le> length hdr")
    case True
    from written_fields_ok [OF assms(1) True] obtain fs where
      "written_fields rt h hdr col r = Inr fs" by blast
    with Cons show ?thesis
      by (cases "written_rows rt h hdr col rows") (auto split: if_splits)
  next
    case False
    then have long: "length hdr < length r" by simp
    from written_fields_long [OF assms(1) long] obtain m where
      "written_fields rt h hdr col r = Inl (ValueError m)" by blast
    with Cons long show ?thesis by (auto split: if_splits)
  qed
qed

lemma hash_csv_column_opened:
  assumes alg: "get_hash_function alg = Inr h"
    and inp: "files w inp = Some (hdr # rows)"
    and col: "col \<in> set hdr"
  shows "fst (hash_csv_column rt inp out col alg w) =
           (if \<forall>r\<in>set rows. length r \<le> length hdr then Inr () else Inl (SystemExit 1))"
    and "files (snd (hash_csv_column rt inp out col alg w)) =
           (files w)(out \<mapsto> hdr # snd (written_rows rt h hdr col rows))"
proof -
  obtain res outs where wr: "written_rows rt h hdr col rows = (res, outs)"
    by (cases "written_rows rt h hdr col rows")
  note tr = hash_csv_column_try_opened [OF alg inp col wr, where out = out]
  have iff: "(res = Inr ()) = (\<forall>r\<in>set rows. length r \<le> length hdr)"
    using written_rows_success_iff [OF col, of rt h rows] wr by simp
  show "fst (hash_csv_column rt inp out col alg w) =
           (if \<forall>r\<in>set rows. length r \<le> length hdr then Inr () else Inl (SystemExit 1))"
  proof (cases res)
    case (Inr u)
    with iff tr show ?thesis by (simp add: hash_csv_column_def)
  next
    case (Inl e)
    with written_rows_error [OF col, of rt h rows e] wr obtain m where "e = ValueError m" by auto
    with Inl iff tr show ?thesis by (simp add: hash_csv_column_def)
  qed
  show "files (snd (hash_csv_column rt inp out col alg w)) =
           (files w)(out \<mapsto> hdr # snd (written_rows rt h hdr col rows))"
  proof (cases res)
    case (Inr u)
    with tr wr show ?thesis by (simp add: hash_csv_column_def print_out_def)
  next
    case (Inl e)
    with written_rows_error [OF col, of rt h rows e] wr obtain m where "e = ValueError m" by auto
    with Inl tr wr show ?thesis by (simp add: hash_csv_column_def print_err_def)
  qed
qed

lemma get_hash_function_cases:
  "(\<exists>h. get_hash_function alg = Inr h) \<or> (\<exists>m. get_hash_function alg = Inl (ValueError m))"
  by (auto simp: get_hash_function_def split: option.splits dest: weak_map_of_SomeI)

lemma hash_csv_column_success:
  assumes "fst (hash_csv_column rt inp out col alg w) = Inr ()"
  shows "\<exists>h hdr rows. get_hash_function alg = Inr h \<and> files w inp = Some (hdr # rows) \<and>
           col \<in> set hdr \<and> (\<forall>r\<in>set rows. length r \<le> length hdr)"
proof -
  from get_hash_function_cases [of alg] assms obtain h where h: "get_hash_function alg = Inr h"
    by (auto simp: hash_csv_column_def hash_csv_column_try_def)
  from assms h obtain recs where recs: "files w inp = Some recs"
    by (cases "files w inp") (auto simp: hash_csv_column_def hash_csv_column_try_def)
  from assms h recs obtain hdr rows where hr: "recs = hdr # rows"
    by (cases recs) (auto simp: hash_csv_column_def hash_csv_column_try_def)
  from assms h recs hr have col: "col \<in> set hdr"
    by (cases "col \<in> set hdr") (auto simp: hash_csv_column_def hash_csv_column_try_def)
  from hash_csv_column_opened(1) [OF h recs [unfolded hr] col, where rt = rt and out = out] assms
  have "\<forall>r\<in>set rows. length r \<le> length hdr" by (simp split: if_splits)
  with h recs hr col show ?thesis by blast
qed



subsection \<open>Names of algorithms\<close>

lemma same_ignoring_case_lower: "same_ignoring_case a b = (lower a = lower b)"
  unfolding same_ignoring_case_def lower_def
  by (induction a arbitrary: b) (auto simp: list_all2_Cons1)

lemma lower_algo_name: "lower (algo_name t) = algo_name t"
  by (cases t) (simp_all add: lower_def char_lower_def)

subsection \<open>Which field a column name reads\<close>

lemma map_of_rev_last:
  assumes i: "i < length ps"
    and last: "\<forall>j. i < j \<and> j < length ps \<longrightarrow> fst (ps ! j) \<noteq> fst (ps ! i)"
  shows "map_of (rev ps) (fst (ps ! i)) = Some (snd (ps ! i))"
proof -
  have split: "ps = take i ps @ ps ! i # drop (Suc i) ps"
    using i by (rule id_take_nth_drop)
  have "fst (ps ! i) \<notin> fst ` set (drop (Suc i) ps)"
  proof
    assume "fst (ps ! i) \<in> fst ` set (drop (Suc i) ps)"
    then obtain p where p: "p \<in> set (drop (Suc i) ps)" "fst p = fst (ps ! i)" by auto
    then obtain n where n: "n < length (drop (Suc i) ps)" "drop (Suc i) ps ! n = p"
      by (auto simp: in_set_conv_nth)
    then have "ps ! (Suc i + n) = p" "Suc i + n < length ps" by auto
    with last p(2) show False by (metis less_add_Suc1 add_Suc)
  qed
  then have none: "map_of (rev (drop (Suc i) ps)) (fst (ps ! i)) = None"
    by (simp add: map_of_eq_None_iff)
  have "rev ps = rev (drop (Suc i) ps) @ ps ! i # rev (take i ps)"
    by (subst split) simp
  then have "map_of (rev ps) (fst (ps ! i)) =
      map_of (rev (drop (Suc i) ps) @ ps ! i # rev (take i ps)) (fst (ps ! i))" by simp
  also have "\<dots> = Some (snd (ps ! i))"
    using none by (cases "ps ! i") (simp add: map_add_def)
  finally show ?thesis .
qed

lemma DictReader_row_last:
  assumes ir: "i < length r" and len: "length r \<le> length hdr"
    and last: "\<forall>j. i < j \<and> j < length hdr \<longrightarrow> hdr ! j \<noteq> hdr ! i"
  shows "map_of (DictReader_row hdr r) (Some (hdr ! i)) = Some (Str (r ! i))"
proof -
  let ?ps = "zip (map Some hdr) (map Str r)"
  have lps: "length ?ps = length r" using len by simp
  have nth: "\<And>j. j < length r \<Longrightarrow> ?ps ! j = (Some (hdr ! j), Str (r ! j))"
    using len by simp
  have "\<forall>j. i < j \<and> j < length ?ps \<longrightarrow> fst (?ps ! j) \<noteq> fst (?ps ! i)"
    using last len ir by (simp add: nth)
  with map_of_rev_last [of i ?ps] ir lps
  have zipv: "map_of (rev ?ps) (Some (hdr ! i)) = Some (Str (r ! i))"
    by (simp add: nth)
  have notin: "hdr ! i \<notin> set (drop (length r) hdr)"
  proof
    assume "hdr ! i \<in> set (drop (length r) hdr)"
    then obtain n where n: "n < length (drop (length r) hdr)" "drop (length r) hdr ! n = hdr ! i"
      by (auto simp: in_set_conv_nth)
    then have "hdr ! (length r + n) = hdr ! i" "length r + n < length hdr" using len by auto
    with last ir show False by (metis trans_less_add1)
  qed
  show ?thesis
    using len zipv notin
    by (simp add: DictReader_row_def Let_def map_of_fill map_of_dict_of)
qed

lemma DictReader_row_missing:
  assumes "c \<in> set (drop (length r) hdr)"
  shows "map_of (DictReader_row hdr r) (Some c) = Some NoneVal"
proof -
  from assms have "length r < length hdr" by (cases "length r < length hdr") auto
  with assms show ?thesis
    by (simp add: DictReader_row_def Let_def map_of_fill)
qed

lemma run_success:
  assumes "fst (hash_csv_column rt inp out col alg w) = Inr ()"
  shows "\<exists>h hdr rows outs.
           get_hash_function alg = Inr h \<and> files w inp = Some (hdr # rows) \<and> col \<in> set hdr \<and>
           (\<forall>r\<in>set rows. length r \<le> length hdr) \<and>
           files (snd (hash_csv_column rt inp out col alg w)) = (files w)(out \<mapsto> hdr # outs) \<and>
           list_all2 (\<lambda>r fs. written_fields rt h hdr col r = Inr fs) (data_rows rows) outs"
proof -
  from hash_csv_column_success [OF assms] obtain h hdr rows where
    h: "get_hash_function alg = Inr h" and f: "files w inp = Some (hdr # rows)"
    and c: "col \<in> set hdr" and len: "\<forall>r\<in>set rows. length r \<le> length hdr" by blast
  have ok: "fst (written_rows rt h hdr col rows) = Inr ()"
    using written_rows_success_iff [OF c, of rt h rows] len by simp
  from hash_csv_column_opened(2) [OF h f c, where rt = rt and out = out]
    written_rows_all2 [OF ok] h f c len
  show ?thesis by blast
qed

lemma data_rows_length:
  assumes "\<forall>r\<in>set rows. length r \<le> n" "k < length (data_rows rows)"
  shows "length (data_rows rows ! k) \<le> n"
proof -
  from assms(2) have "data_rows rows ! k \<in> set (data_rows rows)" by simp
  then have "data_rows rows ! k \<in> set rows" by (simp add: data_rows_def)
  with assms(1) show ?thesis by blast
qed

lemma run_row:
  assumes ok: "fst (hash_csv_column rt inp out col alg w) = Inr ()"
    and f: "files w inp = Some (hdr # rows)"
    and h: "get_hash_function alg = Inr h"
    and k: "k < length (data_rows rows)"
  shows "\<exists>outs. files (snd (hash_csv_column rt inp out col alg w)) out = Some (hdr # outs) \<and>
           length outs = length (data_rows rows) \<and> length (outs ! k) = length hdr \<and>
           (\<forall>i<length hdr. \<exists>v. map_of (DictReader_row hdr (data_rows rows ! k)) (Some (hdr ! i)) = Some v \<and>
              outs ! k ! i = (case v of
                          Str s \<Rightarrow> if hdr ! i = col \<and> s \<noteq> []
                                   then hexdigest (digest rt h (encode_utf8 s)) else s
                        | NoneVal \<Rightarrow> []
                        | Lst xs \<Rightarrow> []))"
proof -
  from run_success [OF ok] f h obtain outs where
    c: "col \<in> set hdr" and len: "\<forall>r\<in>set rows. length r \<le> length hdr"
    and fo: "files (snd (hash_csv_column rt inp out col alg w)) = (files w)(out \<mapsto> hdr # outs)"
    and all2: "list_all2 (\<lambda>r fs. written_fields rt h hdr col r = Inr fs) (data_rows rows) outs"
    by auto
  from all2 have lo: "length outs = length (data_rows rows)"
    by (simp add: list_all2_lengthD)
  from all2 k have wk: "written_fields rt h hdr col (data_rows rows ! k) = Inr (outs ! k)"
    by (auto dest: list_all2_nthD)
  from written_fields_ok [OF c data_rows_length [OF len k], of rt h] wk fo lo
  show ?thesis by auto
qed

section \<open>The claims\<close>

subsection \<open>Failures before the output is opened\<close>

text \<open>
  Claim C6. If the input path does not name an existing file, the process exits with
  status 1 before anything is written: \<open>main\<close> prints its message on the error
  stream and exits, the files are as they were, and no file has been opened or
  written.
\<close>

theorem main_missing_input:
  assumes "files w input_file = None"
  shows "main rt input_file output_file column_name algorithm w =
           (Inl (SystemExit 1),
            w\<lparr>stderr := stderr w @ [''Error: Input file '' @ quoted input_file @ '' does not exist'']\<rparr>)
         \<and> exit_status (fst (main rt input_file output_file column_name algorithm w)) = 1
         \<and> files (snd (main rt input_file output_file column_name algorithm w)) = files w
         \<and> trace (snd (main rt input_file output_file column_name algorithm w)) = trace w"
  using assms by (simp add: main_def print_err_def)

theorem main_missing_input_witness:
  "files example_world ''nowhere.csv'' = None
   \<and> exit_status (fst (main example_runtime ''nowhere.csv'' ''old.csv'' ''email'' ''sha256'' example_world)) = 1
   \<and> files (snd (main example_runtime ''nowhere.csv'' ''old.csv'' ''email'' ''sha256'' example_world)) ''old.csv''
       = Some [[''kept'']]
   \<and> trace (snd (main example_runtime ''nowhere.csv'' ''old.csv'' ''email'' ''sha256'' example_world)) = []"
proof -
  have h: "files example_world ''nowhere.csv'' = None"
    by (simp add: example_world_def)
  show ?thesis
    using h main_missing_input [OF h, of example_runtime "''old.csv''" "''email''" "''sha256''"]
    by (simp add: example_world_def)
qed

text \<open>
  Claim C5. If the requested column is absent from the header of the input, the run
  ends with exit status 1, and the message on the error stream names the missing
  column and lists the columns of the header, separated by commas. The algorithm is
  one that \<open>get_hash_function\<close> resolves, as the choices of the command line
  guarantee; \<open>main\<close> does what \<open>hash_csv_column\<close> does, the input file being there.
\<close>

theorem column_not_found_exit:
  assumes "get_hash_function algorithm = Inr hash_func"
    and "files w input_file = Some (fieldnames # rows)"
    and "column_name \<notin> set fieldnames"
  shows "exit_status (fst (hash_csv_column rt input_file output_file column_name algorithm w)) = 1
         \<and> stderr (snd (hash_csv_column rt input_file output_file column_name algorithm w)) =
             stderr w @ [''Error: Column '' @ quoted column_name
                          @ '' not found in CSV. Available columns: '' @ join '', '' fieldnames]
         \<and> stdout (snd (hash_csv_column rt input_file output_file column_name algorithm w)) = stdout w
         \<and> main rt input_file output_file column_name algorithm w =
             hash_csv_column rt input_file output_file column_name algorithm w"
  using assms
  by (simp add: main_def hash_csv_column_def hash_csv_column_try_def print_err_def open_read_def)

theorem column_not_found_exit_witness:
  "exit_status (fst (hash_csv_column example_runtime ''in.csv'' ''out.csv'' ''mail'' ''sha256'' example_world)) = 1
   \<and> stderr (snd (hash_csv_column example_runtime ''in.csv'' ''out.csv'' ''mail'' ''sha256'' example_world)) =
       [''Error: Column '' @ [CHR 0x27] @ ''mail'' @ [CHR 0x27]
         @ '' not found in CSV. Available columns: id, email, note'']"
proof -
  have a: "get_hash_function ''sha256'' = Inr SHA256" by code_simp
  have f: "files example_world ''in.csv'' =
      Some ([''id'', ''email'', ''note''] # [[''1'', ''ab'', ''x''], [], [''2'', '''', ''y''], [''3'']])"
    by (simp add: example_world_def)
  have c: "''mail'' \<notin> set [''id'', ''email'', ''note'']" by simp
  show ?thesis
    using column_not_found_exit [OF a f c, of example_runtime "''out.csv''"]
    by (simp add: example_world_def quoted_def)
qed

text \<open>
  Claim C9. When the target column is absent from the header, the output file is
  neither created nor truncated: the run exits with the files as they were, and the
  only file it has opened, if any, is the input, for reading. This holds whatever
  the algorithm name is.
\<close>

theorem column_not_found_no_output:
  assumes "files w input_file = Some (fieldnames # rows)"
    and "column_name \<notin> set fieldnames"
  shows "files (snd (hash_csv_column rt input_file output_file column_name algorithm w)) = files w
         \<and> (trace (snd (hash_csv_column rt input_file output_file column_name algorithm w)) = trace w
            \<or> trace (snd (hash_csv_column rt input_file output_file column_name algorithm w))
                = trace w @ [OpenRead input_file])
         \<and> fst (hash_csv_column rt input_file output_file column_name algorithm w) = Inl (SystemExit 1)"
proof -
  from get_hash_function_cases [of algorithm] show ?thesis
  proof
    assume "\<exists>h. get_hash_function algorithm = Inr h"
    then obtain h where "get_hash_function algorithm = Inr h" ..
    with assms show ?thesis
      by (simp add: hash_csv_column_def hash_csv_column_try_def print_err_def open_read_def)
  next
    assume "\<exists>m. get_hash_function algorithm = Inl (ValueError m)"
    then obtain m where "get_hash_function algorithm = Inl (ValueError m)" ..
    then show ?thesis
      by (simp add: hash_csv_column_def hash_csv_column_try_def print_err_def)
  qed
qed

theorem column_not_found_no_output_witness:
  "files (snd (hash_csv_column example_runtime ''in.csv'' ''old.csv'' ''mail'' ''sha256'' example_world)) ''old.csv''
     = Some [[''kept'']]
   \<and> files (snd (hash_csv_column example_runtime ''in.csv'' ''new.csv'' ''mail'' ''sha256'' example_world)) ''new.csv''
     = None"
proof -
  have f: "files example_world ''in.csv'' =
      Some ([''id'', ''email'', ''note''] # [[''1'', ''ab'', ''x''], [], [''2'', '''', ''y''], [''3'']])"
    by (simp add: example_world_def)
  have c: "''mail'' \<notin> set [''id'', ''email'', ''note'']" by simp
  show ?thesis
    using column_not_found_no_output [OF f c, of example_runtime "''old.csv''" "''sha256''"]
          column_not_found_no_output [OF f c, of example_runtime "''new.csv''" "''sha256''"]
    by (simp add: example_world_def)
qed

subsection \<open>The algorithm resolver\<close>

text \<open>
  Claim C7. \<open>get_hash_function\<close> matches the name it is given against the six names
  of the closed set without regard to case and returns the hash function of the name
  that matches; for a name that matches none of them it raises the error (a
  \<open>ValueError\<close>) whose message repeats the name and lists the six valid names.
\<close>

theorem get_hash_function_resolver:
  "(same_ignoring_case algorithm (algo_name t) \<longrightarrow> get_hash_function algorithm = Inr t)
   \<and> ((\<forall>t'. \<not> same_ignoring_case algorithm (algo_name t')) \<longrightarrow>
        get_hash_function algorithm =
          Inl (ValueError (''Unsupported algorithm: '' @ algorithm
                 @ ''. Supported: md5, sha1, sha256, sha512, blake2b, blake2s'')))"
proof (intro conjI impI)
  assume "same_ignoring_case algorithm (algo_name t)"
  then have "lower algorithm = algo_name t"
    by (simp add: same_ignoring_case_lower lower_algo_name)
  then show "get_hash_function algorithm = Inr t"
    by (cases t) (simp_all add: get_hash_function_def algorithms_def)
next
  assume none: "\<forall>t'. \<not> same_ignoring_case algorithm (algo_name t')"
  have "lower algorithm \<noteq> algo_name t'" for t'
    using none by (simp add: same_ignoring_case_lower lower_algo_name)
  from this [of MD5] this [of SHA1] this [of SHA256] this [of SHA512] this [of BLAKE2b]
    this [of BLAKE2s]
  show "get_hash_function algorithm =
          Inl (ValueError (''Unsupported algorithm: '' @ algorithm
                 @ ''. Supported: md5, sha1, sha256, sha512, blake2b, blake2s''))"
    by (simp add: get_hash_function_def algorithms_def)
qed

theorem get_hash_function_resolver_witness:
  "same_ignoring_case ''Sha256'' (algo_name SHA256)
   \<and> get_hash_function ''Sha256'' = Inr SHA256
   \<and> (\<forall>t'. \<not> same_ignoring_case ''sha-256'' (algo_name t'))
   \<and> get_hash_function ''sha-256'' =
       Inl (ValueError ''Unsupported algorithm: sha-256. Supported: md5, sha1, sha256, sha512, blake2b, blake2s'')"
proof -
  have a: "same_ignoring_case ''Sha256'' (algo_name SHA256)" by code_simp
  have l: "lower ''sha-256'' = ''sha-256''" by code_simp
  have b: "\<not> same_ignoring_case ''sha-256'' (algo_name t')" for t'
    by (cases t') (simp_all add: same_ignoring_case_lower l lower_def char_lower_def)
  show ?thesis
    using a b get_hash_function_resolver [of "''Sha256''" SHA256]
      get_hash_function_resolver [of "''sha-256''" MD5]
    by simp
qed

subsection \<open>What a successful run writes\<close>

lemma example_input:
  "files example_world ''in.csv'' =
     Some ([''id'', ''email'', ''note''] # [[''1'', ''ab'', ''x''], [], [''2'', '''', ''y''], [''3'']])"
  by (simp add: example_world_def)

lemma example_success:
  "fst (hash_csv_column example_runtime ''in.csv'' ''out.csv'' ''email'' ''sha256'' example_world) = Inr ()"
  by code_simp

lemma example_algorithm: "get_hash_function ''sha256'' = Inr SHA256"
  by code_simp



text \<open>
  Claim C2. A run that succeeds had an input with a header that contains the target
  column; the output file starts with that same header, in the same order; it holds
  as many data rows as the input, a data row being a record that is not blank, as for
  \<open>DictReader\<close>; each of them has one field for each column of the header; and the
  input file is as it was.
\<close>

theorem rows_and_header_preserved:
  assumes ok: "fst (hash_csv_column rt input_file output_file column_name algorithm w) = Inr ()"
    and differ: "input_file \<noteq> output_file"
  shows "\<exists>fieldnames rows outs.
           files w input_file = Some (fieldnames # rows)
           \<and> column_name \<in> set fieldnames
           \<and> files (snd (hash_csv_column rt input_file output_file column_name algorithm w)) output_file
               = Some (fieldnames # outs)
           \<and> length outs = length (data_rows rows)
           \<and> (\<forall>fs\<in>set outs. length fs = length fieldnames)
           \<and> data_rows outs = outs
           \<and> files (snd (hash_csv_column rt input_file output_file column_name algorithm w)) input_file
               = Some (fieldnames # rows)"
proof -
  from run_success [OF ok] obtain h fieldnames rows outs where
    h: "get_hash_function algorithm = Inr h" and f: "files w input_file = Some (fieldnames # rows)"
    and c: "column_name \<in> set fieldnames" and len: "\<forall>r\<in>set rows. length r \<le> length fieldnames"
    and fo: "files (snd (hash_csv_column rt input_file output_file column_name algorithm w))
               = (files w)(output_file \<mapsto> fieldnames # outs)"
    and all2: "list_all2 (\<lambda>r fs. written_fields rt h fieldnames column_name r = Inr fs)
                 (data_rows rows) outs"
    by blast
  from all2 have lo: "length outs = length (data_rows rows)" by (simp add: list_all2_lengthD)
  have "length fs = length fieldnames" if "fs \<in> set outs" for fs
  proof -
    from that obtain k where k: "k < length outs" "outs ! k = fs" by (auto simp: in_set_conv_nth)
    with lo have k': "k < length (data_rows rows)" by simp
    from run_row [OF ok f h k'] fo k show ?thesis by auto
  qed
  then have all: "\<forall>fs\<in>set outs. length fs = length fieldnames" by blast
  from c have "fieldnames \<noteq> []" by auto
  with all have "\<forall>fs\<in>set outs. fs \<noteq> []" by auto
  then have "data_rows outs = outs" by (simp add: data_rows_def)
  with f c fo lo differ all show ?thesis by auto
qed

theorem rows_and_header_preserved_witness:
  "\<exists>outs. files (snd (hash_csv_column example_runtime ''in.csv'' ''out.csv'' ''email'' ''sha256''
                       example_world)) ''out.csv''
            = Some ([''id'', ''email'', ''note''] # outs)
          \<and> length outs = 3"
proof -
  have d: "length (data_rows [[''1'', ''ab'', ''x''], [], [''2'', '''', ''y''], [''3'']]) = 3"
    by code_simp
  have ne: "''in.csv'' \<noteq> ''out.csv''" by simp
  from rows_and_header_preserved [OF example_success ne] example_input d
  show ?thesis by auto
qed

text \<open>
  Claim C3, amended. The claim as it stands fails when a column name occurs more than
  once in the header: \<open>DictReader\<close> keeps one value for each name, the one of the last
  column that bears it, and \<open>DictWriter\<close> writes that value under every column of
  the name (the counterexample follows the theorem). What holds, in a run
  that succeeds, for every data row and every column other than the target column:
  the field written is the value \<open>DictReader\<close> has read under the name of the
  column, that is, the field the row has at the last position of the header that
  bears the name, or the empty field when the row is too short to have a field there
  and \<^verbatim>\<open>None\<close> was read. So the field written is the field the input has at the
  same position whenever the row has a field there and no later column bears the
  same name.
\<close>

theorem other_columns_unchanged:
  assumes ok: "fst (hash_csv_column rt input_file output_file column_name algorithm w) = Inr ()"
    and differ: "input_file \<noteq> output_file"
    and inp: "files w input_file = Some (fieldnames # rows)"
    and k: "k < length (data_rows rows)"
    and i: "i < length fieldnames" "fieldnames ! i \<noteq> column_name"
  shows "\<exists>outs v. files (snd (hash_csv_column rt input_file output_file column_name algorithm w)) output_file
                  = Some (fieldnames # outs)
           \<and> k < length outs \<and> i < length (outs ! k)
           \<and> dict_get (DictReader_row fieldnames (data_rows rows ! k)) (Some (fieldnames ! i)) = Inr v
           \<and> (v = Str (outs ! k ! i) \<or> (v = NoneVal \<and> outs ! k ! i = []))
           \<and> (i < length (data_rows rows ! k)
                \<and> (\<forall>j. i < j \<and> j < length fieldnames \<longrightarrow> fieldnames ! j \<noteq> fieldnames ! i)
              \<longrightarrow> outs ! k ! i = data_rows rows ! k ! i)
           \<and> (\<forall>j. j < length fieldnames \<and> fieldnames ! j = fieldnames ! i
                    \<and> (\<forall>j'. j < j' \<and> j' < length fieldnames \<longrightarrow> fieldnames ! j' \<noteq> fieldnames ! i)
                  \<longrightarrow> outs ! k ! i = (if j < length (data_rows rows ! k)
                                       then data_rows rows ! k ! j else []))"
proof -
  from run_success [OF ok] inp obtain h where
    h: "get_hash_function algorithm = Inr h"
    and len: "\<forall>r\<in>set rows. length r \<le> length fieldnames" by auto
  let ?r = "data_rows rows ! k"
  from run_row [OF ok inp h k] obtain outs where
    fo: "files (snd (hash_csv_column rt input_file output_file column_name algorithm w)) output_file
           = Some (fieldnames # outs)"
    and lo: "length outs = length (data_rows rows)" and lk: "length (outs ! k) = length fieldnames"
    and fields: "\<forall>i<length fieldnames.
           \<exists>v. map_of (DictReader_row fieldnames ?r) (Some (fieldnames ! i)) = Some v \<and>
              outs ! k ! i = (case v of
                          Str s \<Rightarrow> if fieldnames ! i = column_name \<and> s \<noteq> []
                                   then hexdigest (digest rt h (encode_utf8 s)) else s
                        | NoneVal \<Rightarrow> []
                        | Lst xs \<Rightarrow> [])"
    by blast
  from fields i(1) obtain v where
    v: "map_of (DictReader_row fieldnames ?r) (Some (fieldnames ! i)) = Some v"
    and o0: "outs ! k ! i = (case v of
                          Str s \<Rightarrow> if fieldnames ! i = column_name \<and> s \<noteq> []
                                   then hexdigest (digest rt h (encode_utf8 s)) else s
                        | NoneVal \<Rightarrow> []
                        | Lst xs \<Rightarrow> [])"
    by blast
  from o0 i(2)
  have o: "outs ! k ! i = (case v of Str s \<Rightarrow> s | NoneVal \<Rightarrow> [] | Lst xs \<Rightarrow> [])"
    by (cases v) simp_all
  from DictReader_row_vals [OF v] o
  have kind: "v = Str (outs ! k ! i) \<or> (v = NoneVal \<and> outs ! k ! i = [])" by auto
  have pos: "outs ! k ! i = ?r ! i"
    if "i < length ?r" "\<forall>j. i < j \<and> j < length fieldnames \<longrightarrow> fieldnames ! j \<noteq> fieldnames ! i"
  proof -
    from DictReader_row_last [OF that(1) data_rows_length [OF len k] that(2)] v
    have "v = Str (?r ! i)" by simp
    with o show ?thesis by simp
  qed
  have lastpos: "outs ! k ! i = (if j < length ?r then ?r ! j else [])"
    if j: "j < length fieldnames" and same: "fieldnames ! j = fieldnames ! i"
      and last: "\<forall>j'. j < j' \<and> j' < length fieldnames \<longrightarrow> fieldnames ! j' \<noteq> fieldnames ! i"
    for j
  proof (cases "j < length ?r")
    case True
    from last same
    have "\<forall>j'. j < j' \<and> j' < length fieldnames \<longrightarrow> fieldnames ! j' \<noteq> fieldnames ! j"
      by simp
    from DictReader_row_last [OF True data_rows_length [OF len k] this] same v
    have "v = Str (?r ! j)" by simp
    with o True show ?thesis by simp
  next
    case False
    from False j have inside: "j - length ?r < length (drop (length ?r) fieldnames)"
      by simp
    from False j have "drop (length ?r) fieldnames ! (j - length ?r) = fieldnames ! j"
      by simp
    with nth_mem [OF inside]
    have "fieldnames ! j \<in> set (drop (length ?r) fieldnames)" by simp
    from DictReader_row_missing [OF this] same v have "v = NoneVal" by simp
    with o False show ?thesis by simp
  qed
  have dg: "dict_get (DictReader_row fieldnames ?r) (Some (fieldnames ! i)) = Inr v"
    using v by (simp add: dict_get_def)
  from k lo have kk: "k < length outs" by simp
  from i(1) lk have ii: "i < length (outs ! k)" by simp
  show ?thesis
  proof (intro exI conjI)
    show "files (snd (hash_csv_column rt input_file output_file column_name algorithm w)) output_file
            = Some (fieldnames # outs)" by (rule fo)
    show "k < length outs" by (rule kk)
    show "i < length (outs ! k)" by (rule ii)
    show "dict_get (DictReader_row fieldnames ?r) (Some (fieldnames ! i)) = Inr v" by (rule dg)
    show "v = Str (outs ! k ! i) \<or> (v = NoneVal \<and> outs ! k ! i = [])" by (rule kind)
    show "i < length ?r
            \<and> (\<forall>j. i < j \<and> j < length fieldnames \<longrightarrow> fieldnames ! j \<noteq> fieldnames ! i)
          \<longrightarrow> outs ! k ! i = ?r ! i"
      using pos by blast
    show "\<forall>j. j < length fieldnames \<and> fieldnames ! j = fieldnames ! i
                \<and> (\<forall>j'. j < j' \<and> j' < length fieldnames \<longrightarrow> fieldnames ! j' \<noteq> fieldnames ! i)
              \<longrightarrow> outs ! k ! i = (if j < length ?r then ?r ! j else [])"
      using lastpos by blast
  qed
qed

theorem other_columns_unchanged_witness:
  "\<exists>outs. files (snd (hash_csv_column example_runtime ''in.csv'' ''out.csv'' ''email'' ''sha256''
                       example_world)) ''out.csv''
            = Some ([''id'', ''email'', ''note''] # outs)
          \<and> outs ! 0 ! 2 = ''x''"
proof -
  have k: "0 < length (data_rows [[''1'', ''ab'', ''x''], [], [''2'', '''', ''y''], [''3'']])"
    by code_simp
  have r: "data_rows [[''1'', ''ab'', ''x''], [], [''2'', '''', ''y''], [''3'']] ! 0 = [''1'', ''ab'', ''x'']"
    by code_simp
  have i: "(2::nat) < length [''id'', ''email'', ''note'']" "[''id'', ''email'', ''note''] ! 2 \<noteq> ''email''"
    by simp_all
  have ne: "''in.csv'' \<noteq> ''out.csv''" by simp
  from other_columns_unchanged [OF example_success ne example_input k i]
  show ?thesis by (auto simp: r)
qed

text \<open>
  The claim as it stands, refuted. The header is a, b, a, the target column is b and
  the one data row is x, y, z. The run succeeds; column 0 is not the target column and
  the input has x there, but the field written there is z.
\<close>

theorem other_columns_unchanged_counterexample:
  "fst (hash_csv_column example_runtime ''dup.csv'' ''out.csv'' ''b'' ''sha256''
         repeated_name_world) = Inr ()
   \<and> files repeated_name_world ''dup.csv'' = Some [[''a'', ''b'', ''a''], [''x'', ''y'', ''z'']]
   \<and> [''a'', ''b'', ''a''] ! 0 \<noteq> ''b''
   \<and> files (snd (hash_csv_column example_runtime ''dup.csv'' ''out.csv'' ''b'' ''sha256''
                   repeated_name_world)) ''out.csv''
       = Some [[''a'', ''b'', ''a''], [''z'', ''79'', ''z'']]
   \<and> [''z'', ''79'', ''z''] ! 0 \<noteq> [''x'', ''y'', ''z''] ! 0"
proof (intro conjI)
  show "fst (hash_csv_column example_runtime ''dup.csv'' ''out.csv'' ''b'' ''sha256''
              repeated_name_world) = Inr ()"
    by code_simp
  show "files repeated_name_world ''dup.csv'' = Some [[''a'', ''b'', ''a''], [''x'', ''y'', ''z'']]"
    by (simp add: repeated_name_world_def)
  show "[''a'', ''b'', ''a''] ! 0 \<noteq> ''b''" by simp
  show "files (snd (hash_csv_column example_runtime ''dup.csv'' ''out.csv'' ''b'' ''sha256''
                     repeated_name_world)) ''out.csv''
          = Some [[''a'', ''b'', ''a''], [''z'', ''79'', ''z'']]"
    by code_simp
  show "[''z'', ''79'', ''z''] ! 0 \<noteq> [''x'', ''y'', ''z''] ! 0" by simp
qed



text \<open>
  Claim C10. The test of the loop is the truth value of the value read. In an input
  none of whose rows has more fields than the header, take a data row too short to
  have a value for the target column: the value read is \<^verbatim>\<open>None\<close>, \<open>hash_row\<close>
  returns the row as it is without raising, the run succeeds, and the field written
  under the target column is empty.
\<close>

theorem missing_value_left_empty:
  assumes alg: "get_hash_function algorithm = Inr hash_func"
    and inp: "files w input_file = Some (fieldnames # rows)"
    and differ: "input_file \<noteq> output_file"
    and len: "\<forall>r\<in>set rows. length r \<le> length fieldnames"
    and k: "k < length (data_rows rows)"
    and short: "column_name \<in> set (drop (length (data_rows rows ! k)) fieldnames)"
    and i: "i < length fieldnames" "fieldnames ! i = column_name"
  shows "fst (hash_csv_column rt input_file output_file column_name algorithm w) = Inr ()
         \<and> dict_get (DictReader_row fieldnames (data_rows rows ! k)) (Some column_name) = Inr NoneVal
         \<and> hash_row rt hash_func column_name (DictReader_row fieldnames (data_rows rows ! k))
             = Inr (DictReader_row fieldnames (data_rows rows ! k))
         \<and> (\<exists>outs. files (snd (hash_csv_column rt input_file output_file column_name algorithm w))
                       output_file = Some (fieldnames # outs)
                \<and> k < length outs \<and> i < length (outs ! k) \<and> outs ! k ! i = [])"
proof -
  let ?d = "DictReader_row fieldnames (data_rows rows ! k)"
  from short have c: "column_name \<in> set fieldnames" by (rule in_set_dropD)
  from hash_csv_column_opened(1) [OF alg inp c, where rt = rt and out = output_file] len
  have ok: "fst (hash_csv_column rt input_file output_file column_name algorithm w) = Inr ()"
    by simp
  from DictReader_row_missing [OF short]
  have v: "map_of ?d (Some column_name) = Some NoneVal" .
  then have get: "dict_get ?d (Some column_name) = Inr NoneVal"
    by (simp add: dict_get_def)
  from v have unhashed: "hash_row rt hash_func column_name ?d = Inr ?d"
    by (rule hash_row_empty) simp
  from run_row [OF ok inp alg k] obtain outs where
    fo: "files (snd (hash_csv_column rt input_file output_file column_name algorithm w)) output_file
           = Some (fieldnames # outs)"
    and lo: "length outs = length (data_rows rows)" and lk: "length (outs ! k) = length fieldnames"
    and fields: "\<forall>i<length fieldnames.
           \<exists>v. map_of ?d (Some (fieldnames ! i)) = Some v \<and>
              outs ! k ! i = (case v of
                          Str s \<Rightarrow> if fieldnames ! i = column_name \<and> s \<noteq> []
                                   then hexdigest (digest rt hash_func (encode_utf8 s)) else s
                        | NoneVal \<Rightarrow> []
                        | Lst xs \<Rightarrow> [])"
    by blast
  from fields i v have "outs ! k ! i = []" by auto
  with ok get unhashed fo lo lk k i show ?thesis by auto
qed

theorem missing_value_left_empty_witness:
  "fst (hash_csv_column example_runtime ''in.csv'' ''out.csv'' ''email'' ''sha256'' example_world) = Inr ()
   \<and> dict_get (DictReader_row [''id'', ''email'', ''note''] [''3'']) (Some ''email'') = Inr NoneVal
   \<and> (\<exists>outs. files (snd (hash_csv_column example_runtime ''in.csv'' ''out.csv'' ''email'' ''sha256''
                          example_world)) ''out.csv''
               = Some ([''id'', ''email'', ''note''] # outs)
             \<and> outs ! 2 ! 1 = [])"
proof -
  have len: "\<forall>r\<in>set [[''1'', ''ab'', ''x''], [], [''2'', '''', ''y''], [''3'']].
               length r \<le> length [''id'', ''email'', ''note'']"
    by simp
  have k: "2 < length (data_rows [[''1'', ''ab'', ''x''], [], [''2'', '''', ''y''], [''3'']])"
    by code_simp
  have r: "data_rows [[''1'', ''ab'', ''x''], [], [''2'', '''', ''y''], [''3'']] ! 2 = [''3'']"
    by code_simp
  have short: "''email'' \<in> set (drop (length (data_rows [[''1'', ''ab'', ''x''], [], [''2'', '''', ''y''],
                   [''3'']] ! 2)) [''id'', ''email'', ''note''])"
    by (simp add: r)
  have i: "(1::nat) < length [''id'', ''email'', ''note'']" "[''id'', ''email'', ''note''] ! 1 = ''email''"
    by simp_all
  have ne: "''in.csv'' \<noteq> ''out.csv''" by simp
  from missing_value_left_empty [OF example_algorithm example_input ne len k short i,
      of example_runtime]
  show ?thesis by (auto simp: r)
qed

subsection \<open>Determinism\<close>

text \<open>
  Claim C8. Two runs on input files of the same content, with the same target column
  and the same algorithm, the first of which succeeds: the second succeeds too and the
  two output files have the same content, whatever else differs between the two
  worlds, the earlier content of the output file included.
\<close>

theorem runs_deterministic:
  assumes same: "files w1 input_file = files w2 input_file"
    and differ: "input_file \<noteq> output_file"
    and ok: "fst (hash_csv_column rt input_file output_file column_name algorithm w1) = Inr ()"
  shows "fst (hash_csv_column rt input_file output_file column_name algorithm w2) = Inr ()
         \<and> files (snd (hash_csv_column rt input_file output_file column_name algorithm w1)) output_file
             = files (snd (hash_csv_column rt input_file output_file column_name algorithm w2)) output_file
         \<and> files (snd (hash_csv_column rt input_file output_file column_name algorithm w1)) output_file
             \<noteq> None"
proof -
  from hash_csv_column_success [OF ok] obtain h fieldnames rows where
    h: "get_hash_function algorithm = Inr h" and f1: "files w1 input_file = Some (fieldnames # rows)"
    and c: "column_name \<in> set fieldnames" and len: "\<forall>r\<in>set rows. length r \<le> length fieldnames"
    by blast
  from f1 same have f2: "files w2 input_file = Some (fieldnames # rows)" by simp
  from hash_csv_column_opened [OF h f1 c, where rt = rt and out = output_file]
    hash_csv_column_opened [OF h f2 c, where rt = rt and out = output_file] len
  show ?thesis by simp
qed

theorem runs_deterministic_witness:
  "fst (hash_csv_column example_runtime ''in.csv'' ''out.csv'' ''email'' ''sha256''
         (example_world\<lparr>files := (files example_world)(''out.csv'' \<mapsto> [[''stale'']]),
                         stdout := [''earlier output'']\<rparr>)) = Inr ()
   \<and> files (snd (hash_csv_column example_runtime ''in.csv'' ''out.csv'' ''email'' ''sha256''
                   example_world)) ''out.csv''
     = files (snd (hash_csv_column example_runtime ''in.csv'' ''out.csv'' ''email'' ''sha256''
                   (example_world\<lparr>files := (files example_world)(''out.csv'' \<mapsto> [[''stale'']]),
                                   stdout := [''earlier output'']\<rparr>))) ''out.csv''"
proof -
  have same: "files example_world ''in.csv''
      = files (example_world\<lparr>files := (files example_world)(''out.csv'' \<mapsto> [[''stale'']]),
                              stdout := [''earlier output'']\<rparr>) ''in.csv''"
    by simp
  have ne: "''in.csv'' \<noteq> ''out.csv''" by simp
  from runs_deterministic [OF same ne example_success]
  show ?thesis by simp
qed

end
